theory Spec2Isabelle
  imports Main "HOL-Library.Word"
begin

section \<open>The Python runtime the driver relies on\<close>

text \<open>
  The driver \<^verbatim>\<open>faxitron/ham.py\<close> is Python. Its exceptions are values of \<open>error\<close>;
  a function that can raise returns a sum, \<open>Inl\<close> the exception. Methods of the capture
  session mutate the object before they raise, so their exception carries the session as
  it stands at the \<^verbatim>\<open>raise\<close>.
\<close>

datatype error =
  StructError | AssertionError | IndexError | TypeError | USBError | TimeoutException

type_synonym byte = "8 word"
type_synonym bytes = "byte list"

text \<open>An argument handed to \<^verbatim>\<open>struct.pack\<close>: an integer or a tuple of arguments.\<close>

datatype pyval = PInt int | PTuple "pyval list"

subsection \<open>The struct module, for the formats the driver uses\<close>

text \<open>
  Every format string of the driver starts with its byte order (\<^verbatim>\<open><\<close> or \<^verbatim>\<open>>\<close>),
  followed by the item codes \<^verbatim>\<open>H\<close> (unsigned, 2 bytes) and \<^verbatim>\<open>I\<close> (unsigned,
  4 bytes). \<^verbatim>\<open>struct.pack\<close> first compares the number of arguments with the number
  of items, then converts each argument, which must be an integer in range;
  \<^verbatim>\<open>struct.unpack\<close> wants a buffer of exactly the format's size. Both raise
  \<^verbatim>\<open>struct.error\<close> otherwise.
\<close>

definition code_size :: "char \<Rightarrow> nat option" where
  "code_size c =
     (if c = CHR ''H'' then Some 2 else if c = CHR ''I'' then Some 4 else None)"

definition le_bytes :: "nat \<Rightarrow> int \<Rightarrow> bytes" where
  "le_bytes k v = map (\<lambda>i. word_of_int (v div 256 ^ i)) [0..<k]"

definition le_value :: "bytes \<Rightarrow> int" where
  "le_value bs = foldr (\<lambda>b acc. uint b + 256 * acc) bs 0"

definition enc_uint :: "bool \<Rightarrow> nat \<Rightarrow> int \<Rightarrow> bytes" where
  "enc_uint big k v = (if big then rev (le_bytes k v) else le_bytes k v)"

definition dec_uint :: "bool \<Rightarrow> bytes \<Rightarrow> int" where
  "dec_uint big bs = (if big then le_value (rev bs) else le_value bs)"

fun pack_items :: "bool \<Rightarrow> string \<Rightarrow> pyval list \<Rightarrow> error + bytes" where
  "pack_items big [] [] = Inr []"
| "pack_items big (c # cs) (PInt v # as) =
     (case code_size c of
        None \<Rightarrow> Inl StructError
      | Some k \<Rightarrow>
          if 0 \<le> v \<and> v < 256 ^ k then
            (case pack_items big cs as of
               Inl e \<Rightarrow> Inl e
             | Inr bs \<Rightarrow> Inr (enc_uint big k v @ bs))
          else Inl StructError)"
| "pack_items big cs as = Inl StructError"

definition struct_pack :: "string \<Rightarrow> pyval list \<Rightarrow> error + bytes" where
  "struct_pack fmt args =
     (case fmt of
        [] \<Rightarrow> Inl StructError
      | c # cs \<Rightarrow>
          if c \<noteq> CHR ''>'' \<and> c \<noteq> CHR ''<'' then Inl StructError
          else if length args \<noteq> length cs then Inl StructError
          else pack_items (c = CHR ''>'') cs args)"

fun unpack_items :: "bool \<Rightarrow> string \<Rightarrow> bytes \<Rightarrow> error + int list" where
  "unpack_items big [] buff = (if buff = [] then Inr [] else Inl StructError)"
| "unpack_items big (c # cs) buff =
     (case code_size c of
        None \<Rightarrow> Inl StructError
      | Some k \<Rightarrow>
          if length buff < k then Inl StructError
          else
            (case unpack_items big cs (drop k buff) of
               Inl e \<Rightarrow> Inl e
             | Inr vs \<Rightarrow> Inr (dec_uint big (take k buff) # vs)))"

definition struct_unpack :: "string \<Rightarrow> bytes \<Rightarrow> error + int list" where
  "struct_unpack fmt buff =
     (case fmt of
        [] \<Rightarrow> Inl StructError
      | c # cs \<Rightarrow>
          if c \<noteq> CHR ''>'' \<and> c \<noteq> CHR ''<'' then Inl StructError
          else unpack_items (c = CHR ''>'') cs buff)"

text \<open>Python's slice \<^verbatim>\<open>buff[a:b]\<close> for indices that are not negative.\<close>

definition pyslice :: "'a list \<Rightarrow> nat \<Rightarrow> nat \<Rightarrow> 'a list" where
  "pyslice xs a b = take (b - a) (drop a xs)"

section \<open>Constants of the stream protocol\<close>

definition MSG_ABORTED :: int where "MSG_ABORTED = 0x8001"
definition MSG_BEGIN :: int where "MSG_BEGIN = 0x8002"
definition MSG_END :: int where "MSG_END = 0x8004"
definition MSG_WTF :: int where "MSG_WTF = 0x8005"
definition MSG_END_SZ :: nat where "MSG_END_SZ = 6"
definition STATUS_OK :: int where "STATUS_OK = 3"
definition STATUS_NOK :: int where "STATUS_NOK = 7"

section \<open>The command channel\<close>

text \<open>
  The USB device of the synchronous path: what was written to each endpoint, and the
  replies the device will give to the bulk reads of endpoint 0x83. A read with no reply
  waiting times out, which \<^verbatim>\<open>usb1\<close> raises as an error. \<^verbatim>\<open>tobytes\<close> of
  \<^verbatim>\<open>faxitron.util\<close> is the identity on a byte string.
\<close>

record usbdev =
  written :: "(nat \<times> bytes) list"
  replies :: "bytes list"

definition bulkWrite :: "usbdev \<Rightarrow> nat \<Rightarrow> bytes \<Rightarrow> usbdev" where
  "bulkWrite dev endpoint data = dev\<lparr>written := written dev @ [(endpoint, data)]\<rparr>"

definition bulkRead :: "usbdev \<Rightarrow> nat \<Rightarrow> nat \<Rightarrow> (error \<times> usbdev) + (bytes \<times> usbdev)" where
  "bulkRead dev endpoint len =
     (case replies dev of
        [] \<Rightarrow> Inl (USBError, dev)
      | r # rs \<Rightarrow> Inr (take len r, dev\<lparr>replies := rs\<rparr>))"

definition bulk1 :: "usbdev \<Rightarrow> bytes \<Rightarrow> bool \<Rightarrow> (error \<times> usbdev) + (bytes option \<times> usbdev)" where
  "bulk1 dev cmd rd =
     (let dev1 = bulkWrite dev 0x01 cmd in
      if rd then
        (case bulkRead dev1 0x83 0x0200 of
           Inl e \<Rightarrow> Inl e
         | Inr (ret, dev2) \<Rightarrow> Inr (Some ret, dev2))
      else Inr (None, dev1))"

text \<open>
  \<^verbatim>\<open>cmd1\<close> calls \<^verbatim>\<open>struct.pack(">II", (opcode, len(payload)))\<close>: the two values
  are handed over as one argument, a tuple.
\<close>

definition cmd1 :: "usbdev \<Rightarrow> int \<Rightarrow> bytes \<Rightarrow> bool \<Rightarrow> (error \<times> usbdev) + (bytes option \<times> usbdev)" where
  "cmd1 dev opcode payload rd =
     (case struct_pack ''>II'' [PTuple [PInt opcode, PInt (int (length payload))]] of
        Inl e \<Rightarrow> Inl (e, dev)
      | Inr buff \<Rightarrow> bulk1 dev (buff @ payload) rd)"

section \<open>Sync words\<close>

definition unpack16_le :: "bytes \<Rightarrow> error + int" where
  "unpack16_le buff =
     (case struct_unpack ''<H'' buff of
        Inl e \<Rightarrow> Inl e
      | Inr [] \<Rightarrow> Inl IndexError
      | Inr (v # vs) \<Rightarrow> Inr v)"

text \<open>
  \<^verbatim>\<open>is_sync\<close> returns the leading word of a buffer when it is a marker and 0
  otherwise. Its printing and \<^verbatim>\<open>hexdump\<close> have no effect on the session.
\<close>

definition is_sync :: "bytes \<Rightarrow> error + int" where
  "is_sync buff =
     (if length buff = 0 then Inr 0
      else
        (case unpack16_le (pyslice buff 0 2) of
           Inl e \<Rightarrow> Inl e
         | Inr pack2u \<Rightarrow> if pack2u \<ge> 0x4000 then Inr pack2u else Inr 0))"

section \<open>The streaming capture engine\<close>

text \<open>
  The fields of \<^verbatim>\<open>CapImgN\<close> that the engine reads or writes. \<open>state\<close> holds a marker
  value as in the source: \<open>MSG_END\<close> while waiting for a frame to begin, \<open>MSG_BEGIN\<close>
  inside a frame. \<open>rawbuff\<close> is \<open>None\<close> or the accumulated bytes. A completion is the
  tuple (counter, raw image, footer value). The transfers of \<^verbatim>\<open>trans_l\<close> all read the
  same endpoint with the same callback, so the model keeps their number that is
  submitted to the USB stack and not yet completed, \<open>submitted\<close>; \<open>urb_remain\<close> is the
  count the engine itself keeps.
\<close>

type_synonym completion = "int \<times> bytes \<times> int"

record CapImgN =
  width :: nat
  height :: nat
  depth :: nat
  imgsz :: nat
  imgx_sz :: nat
  n :: int
  state :: int
  urb_remain :: int
  urb_max :: int
  rawbuff :: "bytes option"
  completions :: "completion list"
  packets :: nat
  running :: bool
  submitted :: nat

type_synonym 'a raises = "(error \<times> CapImgN) + 'a"

definition CapImgN_init :: "nat \<Rightarrow> nat \<Rightarrow> nat \<Rightarrow> int \<Rightarrow> CapImgN" where
  "CapImgN_init w h d cnt =
     \<lparr>width = w, height = h, depth = d, imgsz = w * h * d, imgx_sz = w * h * d + 2,
      n = cnt, state = MSG_END, urb_remain = 0, urb_max = 31, rawbuff = None,
      completions = [], packets = 0, running = True, submitted = 0\<rparr>"

text \<open>
  \<^verbatim>\<open>process_end\<close>: cut image and footer off the accumulated bytes, read the footer,
  then the trailer of the END buffer. The slices of a \<open>None\<close> buffer raise a TypeError.
\<close>

definition process_end :: "CapImgN \<Rightarrow> bytes \<Rightarrow> CapImgN raises" where
  "process_end self endbuff =
     (case rawbuff self of
        None \<Rightarrow> Inl (TypeError, self)
      | Some rb \<Rightarrow>
          let buff = pyslice rb 0 (imgx_sz self);
              self1 = self\<lparr>rawbuff := Some (drop (imgx_sz self) rb)\<rparr>;
              rawimg = pyslice buff 0 (imgsz self);
              footer = drop (imgsz self) buff
          in
          (case struct_unpack ''<H'' footer of
             Inl e \<Rightarrow> Inl (e, self1)
           | Inr [] \<Rightarrow> Inl (IndexError, self1)
           | Inr (average # x) \<Rightarrow>
               (case unpack16_le (pyslice endbuff 0 2) of
                  Inl e \<Rightarrow> Inl (e, self1)
                | Inr opcode \<Rightarrow>
                    let endbuff1 = pyslice endbuff 0 MSG_END_SZ in
                    if opcode \<noteq> MSG_END then Inl (AssertionError, self1)
                    else
                      (case struct_unpack ''<HH'' (drop 2 endbuff1) of
                         Inr [status, counter] \<Rightarrow>
                           if status = STATUS_NOK then Inr self1
                           else if status \<noteq> STATUS_OK then Inl (AssertionError, self1)
                           else if length rawimg \<noteq> imgsz self then Inl (AssertionError, self1)
                           else Inr (self1\<lparr>completions :=
                                  completions self1 @ [(counter, rawimg, average)]\<rparr>)
                       | Inr vs \<Rightarrow> Inl (StructError, self1)
                       | Inl e \<Rightarrow> Inl (e, self1)))))"

definition handle_buff :: "CapImgN \<Rightarrow> bytes \<Rightarrow> CapImgN raises" where
  "handle_buff self buff =
     (case is_sync buff of
        Inl e \<Rightarrow> Inl (e, self)
      | Inr sync \<Rightarrow>
          if sync = MSG_WTF then Inr (self\<lparr>state := MSG_END, rawbuff := None\<rparr>)
          else if state self = MSG_END then
            (if sync = 0 then Inr self
             else if sync = MSG_END then Inr self
             else if sync \<noteq> MSG_BEGIN then Inl (AssertionError, self)
             else Inr (self\<lparr>state := MSG_BEGIN, rawbuff := Some [], packets := 0\<rparr>))
          else if state self = MSG_BEGIN then
            (if sync \<noteq> 0 then
               (if sync \<noteq> MSG_END then Inl (AssertionError, self)
                else
                  (case process_end self buff of
                     Inl e \<Rightarrow> Inl e
                   | Inr self1 \<Rightarrow> Inr (self1\<lparr>rawbuff := None, state := MSG_END\<rparr>)))
             else
               (let self1 = self\<lparr>packets := packets self + 1\<rparr> in
                case rawbuff self1 of
                  None \<Rightarrow> Inl (TypeError, self1)
                | Some rb \<Rightarrow> Inr (self1\<lparr>rawbuff := Some (rb @ buff)\<rparr>)))
          else Inl (AssertionError, self))"

text \<open>
  \<^verbatim>\<open>trans.submit()\<close> hands the transfer back to the USB stack. The callback runs for a
  transfer that has completed, which the stack has taken out of the submitted ones
  before (see \<open>deliver\<close>).
\<close>

definition submit :: "CapImgN \<Rightarrow> CapImgN" where
  "submit self = self\<lparr>submitted := submitted self + 1\<rparr>"

definition async_cb :: "CapImgN \<Rightarrow> bytes \<Rightarrow> CapImgN raises" where
  "async_cb self buff =
     (case (if running self then handle_buff self buff else Inr self) of
        Inl (e, self1) \<Rightarrow> Inl (e, self1\<lparr>running := False\<rparr>)
      | Inr self1 \<Rightarrow>
          if running self1 then
            (if state self1 = MSG_END \<and> urb_remain self1 = 1 then Inr (submit self1)
             else if state self1 = MSG_BEGIN then Inr (submit self1)
             else Inr self1)
          else Inr (self1\<lparr>urb_remain := urb_remain self1 - 1\<rparr>))"

fun alloc_urb_loop :: "nat \<Rightarrow> CapImgN \<Rightarrow> CapImgN" where
  "alloc_urb_loop 0 self = self"
| "alloc_urb_loop (Suc k) self =
     alloc_urb_loop k ((submit self)\<lparr>urb_remain := urb_remain self + 1\<rparr>)"

definition alloc_urb :: "CapImgN \<Rightarrow> int \<Rightarrow> CapImgN" where
  "alloc_urb self cnt = alloc_urb_loop (nat cnt) self"

text \<open>
  One call of \<^verbatim>\<open>handleEventsTimeout\<close> completes some of the submitted transfers, each
  with the bytes it read (none, for a transfer that timed out), and runs the callback
  of each in turn. A buffer of the script for which no transfer is submitted completes
  nothing. An exception of a callback ends the call.
\<close>

definition deliver :: "CapImgN \<Rightarrow> bytes \<Rightarrow> CapImgN raises" where
  "deliver self buff =
     (if submitted self = 0 then Inr self
      else async_cb (self\<lparr>submitted := submitted self - 1\<rparr>) buff)"

fun handleEvents :: "CapImgN \<Rightarrow> bytes list \<Rightarrow> CapImgN raises" where
  "handleEvents self [] = Inr self"
| "handleEvents self (buff # rest) =
     (case deliver self buff of
        Inl e \<Rightarrow> Inl e
      | Inr self1 \<Rightarrow> handleEvents self1 rest)"

text \<open>
  The loop of \<^verbatim>\<open>run\<close>. The world is a script: for each turn of the loop, the
  milliseconds on the wall clock since \<^verbatim>\<open>tstart\<close> when the turn reads it, and the
  buffers that complete during the turn's \<^verbatim>\<open>handleEventsTimeout\<close>. The source
  truncates the elapsed seconds to a whole number before it multiplies by 1000. A
  script that ends while the loop still runs leaves the call \<open>Pending\<close>.
\<close>

datatype outcome =
  Returned "completion list" CapImgN
| Raised error CapImgN
| Pending CapImgN

fun run_loop :: "int \<Rightarrow> CapImgN \<Rightarrow> (nat \<times> bytes list) list \<Rightarrow> outcome" where
  "run_loop timeout_ms self [] =
     (if urb_remain self = 0 then Returned (completions self) self else Pending self)"
| "run_loop timeout_ms self ((t, bufs) # script) =
     (if urb_remain self = 0 then Returned (completions self) self
      else
        let self1 = self\<lparr>running := running self \<and> int (length (completions self)) < n self\<rparr>;
            elapsed = int (t div 1000) * 1000
        in
        if elapsed \<ge> timeout_ms then Raised TimeoutException self1
        else
          let self2 = (if running self1 \<and> state self1 = MSG_BEGIN
                       then alloc_urb self1 (urb_max self1 - urb_remain self1)
                       else self1)
          in
          (case handleEvents self2 bufs of
             Inl (e, self3) \<Rightarrow> Raised e self3
           | Inr self3 \<Rightarrow> run_loop timeout_ms self3 script))"

text \<open>
  \<^verbatim>\<open>run\<close> starts with a fresh list of transfers and one read, loops, and yields the
  completions; its \<^verbatim>\<open>finally\<close> clears \<open>running\<close> however the loop ends.
\<close>

definition stop :: "outcome \<Rightarrow> outcome" where
  "stop r =
     (case r of
        Returned cs self \<Rightarrow> Returned cs (self\<lparr>running := False\<rparr>)
      | Raised e self \<Rightarrow> Raised e (self\<lparr>running := False\<rparr>)
      | Pending self \<Rightarrow> Pending self)"

definition run :: "CapImgN \<Rightarrow> int \<Rightarrow> (nat \<times> bytes list) list \<Rightarrow> outcome" where
  "run self timeout_ms script =
     stop (run_loop timeout_ms (alloc_urb (self\<lparr>urb_remain := 0, submitted := 0\<rparr>) 1) script)"

definition cap_imgn ::
  "nat \<Rightarrow> nat \<Rightarrow> nat \<Rightarrow> int \<Rightarrow> int \<Rightarrow> (nat \<times> bytes list) list \<Rightarrow> outcome" where
  "cap_imgn w h d cnt timeout_ms script = run (CapImgN_init w h d cnt) timeout_ms script"

definition session_of :: "outcome \<Rightarrow> CapImgN" where
  "session_of r = (case r of Returned cs self \<Rightarrow> self | Raised e self \<Rightarrow> self | Pending self \<Rightarrow> self)"

text \<open>
  Two properties of the session that every turn of the loop keeps. \<open>urb_remain\<close> is
  the count the loop runs on; \<open>submitted\<close> is the number of transfers really in
  flight. The second property ties \<open>running\<close> to the count and to the target.
\<close>

definition bounds_inv :: "CapImgN \<Rightarrow> bool" where
  "bounds_inv s \<longleftrightarrow> int (submitted s) \<le> urb_remain s \<and> urb_remain s \<le> urb_max s"

definition running_inv :: "CapImgN \<Rightarrow> bool" where
  "running_inv s \<longleftrightarrow>
     (if running s then 1 \<le> urb_remain s else n s \<le> int (length (completions s)))"

section \<open>The frame decoder\<close>

text \<open>
  The part of PIL the decoder uses. \<^verbatim>\<open>Image.new(mode, size, color)\<close> takes the size
  as (width, height) and fills the image with the colour; \<^verbatim>\<open>"White"\<close> is 255 in mode
  \<^verbatim>\<open>"I"\<close>. \<^verbatim>\<open>putpixel((x, y), v)\<close> raises an IndexError for a position outside the
  image. An image is its rows, top first.
\<close>

record image =
  xsize :: nat
  ysize :: nat
  rows :: "int list list"

definition Image_new :: "nat \<times> nat \<Rightarrow> int \<Rightarrow> image" where
  "Image_new sz color =
     \<lparr>xsize = fst sz, ysize = snd sz,
      rows = replicate (snd sz) (replicate (fst sz) color)\<rparr>"

definition putpixel :: "image \<Rightarrow> nat \<times> nat \<Rightarrow> int \<Rightarrow> error + image" where
  "putpixel img xy v =
     (case xy of (x, y) \<Rightarrow>
        if x < xsize img \<and> y < ysize img
        then Inr (img\<lparr>rows := (rows img)[y := (rows img ! y)[x := v]]\<rparr>)
        else Inl IndexError)"

definition getpixel :: "image \<Rightarrow> nat \<times> nat \<Rightarrow> error + int" where
  "getpixel img xy =
     (case xy of (x, y) \<Rightarrow>
        if x < xsize img \<and> y < ysize img then Inr (rows img ! y ! x) else Inl IndexError)"

text \<open>The inner loop of \<^verbatim>\<open>decode\<close>, over the columns still to do of row \<open>y\<close>.\<close>

fun decode_cols :: "bytes \<Rightarrow> nat \<Rightarrow> nat list \<Rightarrow> image \<Rightarrow> error + image" where
  "decode_cols line0 y [] img = Inr img"
| "decode_cols line0 y (x # xs) img =
     (if 2 * x + 1 < length line0 then
        (let b0 = uint (line0 ! (2 * x + 0));
             b1 = uint (line0 ! (2 * x + 1))
         in
         case putpixel img (x, y) (b1 * 256 + b0) of
           Inl e \<Rightarrow> Inl e
         | Inr img1 \<Rightarrow> decode_cols line0 y xs img1)
      else Inl IndexError)"

text \<open>The outer loop, over the rows still to do.\<close>

fun decode_rows :: "bytes \<Rightarrow> nat \<Rightarrow> nat \<Rightarrow> nat list \<Rightarrow> image \<Rightarrow> error + image" where
  "decode_rows buff w d [] img = Inr img"
| "decode_rows buff w d (y # ys) img =
     (let line0 = pyslice buff (y * w * d) ((y + 1) * w * d) in
      case decode_cols line0 y [0..<w] img of
        Inl e \<Rightarrow> Inl e
      | Inr img1 \<Rightarrow> decode_rows buff w d ys img1)"

definition decode :: "bytes \<Rightarrow> nat \<Rightarrow> nat \<Rightarrow> nat \<Rightarrow> error + image" where
  "decode buff w h d =
     (if length buff \<noteq> w * h * d then Inl AssertionError
      else decode_rows buff w d [0..<h] (Image_new (h, w) 255))"

section \<open>The session facade\<close>

text \<open>
  Of \<^verbatim>\<open>Hamamatsu\<close>, the geometry: \<open>None\<close> until the device was initialised. Its
  \<^verbatim>\<open>decode\<close> method calls the decoder with the default depth and has no
  \<^verbatim>\<open>return\<close> statement, so what it returns is Python's \<open>None\<close>.
\<close>

record Hamamatsu =
  ham_width :: "nat option"
  ham_height :: "nat option"

definition Hamamatsu_decode :: "Hamamatsu \<Rightarrow> bytes \<Rightarrow> error + image option" where
  "Hamamatsu_decode self buff =
     (case (ham_width self, ham_height self) of
        (Some w, Some h) \<Rightarrow>
          (case decode buff w h 2 of
             Inl e \<Rightarrow> Inl e
           | Inr img \<Rightarrow> Inr None)
      | _ \<Rightarrow> Inl TypeError)"

section \<open>Facts about the runtime model\<close>

lemma struct_unpack_H_le:
  "struct_unpack ''<H'' buff =
     (case buff of [b0, b1] \<Rightarrow> Inr [uint b0 + 256 * uint b1] | _ \<Rightarrow> Inl StructError)"
  by (simp add: struct_unpack_def code_size_def dec_uint_def le_value_def
      split: list.splits)

lemma struct_unpack_HH_le:
  "struct_unpack ''<HH'' buff =
     (case buff of
        [b0, b1, b2, b3] \<Rightarrow> Inr [uint b0 + 256 * uint b1, uint b2 + 256 * uint b3]
      | _ \<Rightarrow> Inl StructError)"
  by (simp add: struct_unpack_def code_size_def dec_uint_def le_value_def
      split: list.splits)

lemma unpack16_le_eq:
  "unpack16_le buff =
     (case buff of [b0, b1] \<Rightarrow> Inr (uint b0 + 256 * uint b1) | _ \<Rightarrow> Inl StructError)"
  by (simp add: unpack16_le_def struct_unpack_H_le split: list.splits)

lemma is_sync_Nil: "is_sync [] = Inr 0"
  by (simp add: is_sync_def)

lemma is_sync_single: "is_sync [b] = Inl StructError"
  by (simp add: is_sync_def pyslice_def unpack16_le_eq)

lemma is_sync_word:
  "is_sync (b0 # b1 # rest) =
     Inr (if uint b0 + 256 * uint b1 \<ge> 0x4000 then uint b0 + 256 * uint b1 else 0)"
  by (simp add: is_sync_def pyslice_def unpack16_le_eq)

lemma leading_word:
  "unpack16_le (pyslice buff 0 2) = Inr v \<longleftrightarrow>
     (\<exists>b0 b1 rest. buff = b0 # b1 # rest \<and> v = uint b0 + 256 * uint b1)"
proof (cases buff)
  case Nil
  then show ?thesis by (simp add: unpack16_le_eq pyslice_def)
next
  case (Cons b0 tl)
  show ?thesis
  proof (cases tl)
    case Nil
    then show ?thesis using Cons by (simp add: unpack16_le_eq pyslice_def)
  next
    case (Cons b1 rest)
    then show ?thesis using \<open>buff = b0 # tl\<close>
      by (auto simp: unpack16_le_eq pyslice_def)
  qed
qed

lemma is_sync_marker:
  "unpack16_le (pyslice buff 0 2) = Inr v \<Longrightarrow> v \<ge> 0x4000 \<Longrightarrow> is_sync buff = Inr v"
  by (auto simp: leading_word is_sync_word)

text \<open>The footer is two bytes exactly when the accumulated bytes reach image plus footer.\<close>

lemma footer_two:
  assumes "zx = z + 2"
  shows "struct_unpack ''<H'' (drop z (pyslice rb 0 zx)) =
     (if zx \<le> length rb then Inr [uint (rb ! z) + 256 * uint (rb ! (z + 1))]
      else Inl StructError)"
proof (cases "zx \<le> length rb")
  case True
  then have "drop z (take zx rb) = [rb ! z, rb ! (z + 1)]"
    using assms by (auto simp: list_eq_iff_nth_eq less_Suc_eq numeral_2_eq_2)
  then show ?thesis using True by (simp add: struct_unpack_H_le pyslice_def)
next
  case False
  then have "length (drop z (take zx rb)) < 2" using assms by simp
  then have "struct_unpack ''<H'' (drop z (take zx rb)) = Inl StructError"
    by (cases "drop z (take zx rb)" rule: list.exhaust)
       (auto simp: struct_unpack_H_le split: list.splits)
  then show ?thesis using False by (simp add: pyslice_def)
qed

section \<open>Finishing a frame\<close>

lemma process_end_eq:
  assumes rb: "rawbuff self = Some rb"
      and zx: "imgx_sz self = imgsz self + 2"
      and len: "imgx_sz self \<le> length rb"
      and eb: "endbuff = e0 # e1 # s0 # s1 # c0 # c1 # rest"
      and op: "uint e0 + 256 * uint e1 = MSG_END"
  shows "process_end self endbuff =
     (if uint s0 + 256 * uint s1 = STATUS_NOK
      then Inr (self\<lparr>rawbuff := Some (drop (imgx_sz self) rb)\<rparr>)
      else if uint s0 + 256 * uint s1 = STATUS_OK
      then Inr (self\<lparr>rawbuff := Some (drop (imgx_sz self) rb),
                     completions := completions self @
                       [(uint c0 + 256 * uint c1, take (imgsz self) rb,
                         uint (rb ! imgsz self) + 256 * uint (rb ! (imgsz self + 1)))]\<rparr>)
      else Inl (AssertionError, self\<lparr>rawbuff := Some (drop (imgx_sz self) rb)\<rparr>))"
proof -
  have foot: "struct_unpack ''<H'' (drop (imgsz self) (pyslice rb 0 (imgx_sz self))) =
      Inr [uint (rb ! imgsz self) + 256 * uint (rb ! (imgsz self + 1))]"
    using footer_two [OF zx, of rb] len by simp
  have img: "pyslice (pyslice rb 0 (imgx_sz self)) 0 (imgsz self) = take (imgsz self) rb"
    using zx by (simp add: pyslice_def min_def)
  have limg: "length (take (imgsz self) rb) = imgsz self"
    using zx len by simp
  have opc: "unpack16_le (pyslice endbuff 0 2) = Inr MSG_END"
    using eb op by (simp add: unpack16_le_eq pyslice_def)
  have tr: "struct_unpack ''<HH'' (drop 2 (pyslice endbuff 0 MSG_END_SZ)) =
      Inr [uint s0 + 256 * uint s1, uint c0 + 256 * uint c1]"
    using eb by (simp add: struct_unpack_HH_le pyslice_def MSG_END_SZ_def)
  show ?thesis
    unfolding process_end_def
    by (simp add: rb foot img limg opc tr Let_def del: length_take)
qed

lemma process_end_short:
  assumes rb: "rawbuff self = Some rb"
      and zx: "imgx_sz self = imgsz self + 2"
      and len: "length rb < imgx_sz self"
  shows "process_end self endbuff =
     Inl (StructError, self\<lparr>rawbuff := Some (drop (imgx_sz self) rb)\<rparr>)"
proof -
  have foot: "struct_unpack ''<H'' (drop (imgsz self) (pyslice rb 0 (imgx_sz self))) =
      Inl StructError"
    using footer_two [OF zx, of rb] len by simp
  show ?thesis
    unfolding process_end_def by (simp add: rb foot Let_def)
qed

lemma process_end_Inr:
  assumes rb: "rawbuff self = Some rb"
      and zx: "imgx_sz self = imgsz self + 2"
      and ok: "process_end self endbuff = Inr self1"
  shows "imgx_sz self \<le> length rb \<and>
     (self1 = self\<lparr>rawbuff := Some (drop (imgx_sz self) rb)\<rparr> \<or>
      (\<exists>counter. self1 = self\<lparr>rawbuff := Some (drop (imgx_sz self) rb),
          completions := completions self @
            [(counter, take (imgsz self) rb,
              uint (rb ! imgsz self) + 256 * uint (rb ! (imgsz self + 1)))]\<rparr>))"
proof -
  have len: "imgx_sz self \<le> length rb"
  proof (rule ccontr)
    assume "\<not> imgx_sz self \<le> length rb"
    then have "length rb < imgx_sz self" by simp
    from process_end_short [OF rb zx this] ok show False by simp
  qed
  have foot: "struct_unpack ''<H'' (drop (imgsz self) (pyslice rb 0 (imgx_sz self))) =
      Inr [uint (rb ! imgsz self) + 256 * uint (rb ! (imgsz self + 1))]"
    using footer_two [OF zx, of rb] len by simp
  have img: "pyslice (pyslice rb 0 (imgx_sz self)) 0 (imgsz self) = take (imgsz self) rb"
    using zx by (simp add: pyslice_def min_def)
  from ok have "self1 = self\<lparr>rawbuff := Some (drop (imgx_sz self) rb)\<rparr> \<or>
      (\<exists>counter. self1 = self\<lparr>rawbuff := Some (drop (imgx_sz self) rb),
          completions := completions self @
            [(counter, take (imgsz self) rb,
              uint (rb ! imgsz self) + 256 * uint (rb ! (imgsz self + 1)))]\<rparr>)"
    unfolding process_end_def
    by (auto simp: rb foot img Let_def simp del: length_take
        split: sum.splits list.splits if_splits)
  with len show ?thesis by simp
qed

section \<open>The command channel: claim C1\<close>

text \<open>
  C1. The claim: \<^verbatim>\<open>cmd1\<close> writes the opcode and the payload length, both big-endian
  32-bit, and then the payload. The code does not get that far: \<^verbatim>\<open>struct.pack\<close> is
  given the format of two items and one argument (the tuple), so it raises
  \<^verbatim>\<open>struct.error\<close> for every opcode and every payload, and nothing is written to the
  device.
\<close>

theorem cmd1_raises: "cmd1 dev opcode payload rd = Inl (StructError, dev)"
  by (simp add: cmd1_def struct_pack_def)

text \<open>The header the claim describes is what the same format gives for two arguments.\<close>

lemma struct_pack_header:
  "struct_pack ''>II'' [PInt 0x0E, PInt 1] = Inr [0, 0, 0, 0x0E, 0, 0, 0, 1]"
  by (simp add: struct_pack_def code_size_def enc_uint_def le_bytes_def upt_rec)

section \<open>The frame decoder: claim C2\<close>

text \<open>
  C2. The claim: \<^verbatim>\<open>decode\<close> returns the grid of little-endian 16-bit pixels, and the
  buffer 0x34 0x12 0x00 0x00 with width 2 and height 1 decodes to the row 0x1234, 0.
  The code creates the image with the size (height, width), so here it is 1 wide and 2
  high, and writing the pixel at column 1 raises an IndexError.
\<close>

theorem decode_two_by_one:
  "decode [0x34, 0x12, 0x00, 0x00] 2 1 2 = Inl IndexError"
  by (simp add: decode_def Image_new_def pyslice_def putpixel_def upt_rec)

section \<open>Finishing a frame: claims C3 and C5\<close>

text \<open>
  C3, as amended. When a buffer that starts with the END marker is handled inside a
  frame and the handling returns, the accumulated bytes held at least image plus
  footer; the raw image of a completion is their first \<open>imgsz\<close> bytes and its footer
  value the next two bytes read little-endian; \<^verbatim>\<open>process_end\<close> leaves the bytes beyond
  image and footer in \<open>rawbuff\<close>, and \<^verbatim>\<open>handle_buff\<close> then sets \<open>rawbuff\<close> to \<open>None\<close>:
  they are not kept for the following frame.
\<close>

theorem handle_buff_END_split:
  assumes st: "state self = MSG_BEGIN"
      and rb: "rawbuff self = Some rb"
      and zx: "imgx_sz self = imgsz self + 2"
      and mk: "unpack16_le (pyslice buff 0 2) = Inr MSG_END"
      and ok: "handle_buff self buff = Inr self'"
  shows "imgx_sz self \<le> length rb \<and>
     (\<exists>self1. process_end self buff = Inr self1 \<and>
         rawbuff self1 = Some (drop (imgx_sz self) rb)) \<and>
     rawbuff self' = None \<and> state self' = MSG_END \<and>
     (completions self' = completions self \<or>
      (\<exists>counter. completions self' = completions self @
         [(counter, take (imgsz self) rb,
           uint (rb ! imgsz self) + 256 * uint (rb ! (imgsz self + 1)))]))"
proof -
  have sync: "is_sync buff = Inr MSG_END"
    using mk by (rule is_sync_marker) (simp add: MSG_END_def)
  from ok obtain self1 where pe: "process_end self buff = Inr self1"
    and s': "self' = self1\<lparr>rawbuff := None, state := MSG_END\<rparr>"
    unfolding handle_buff_def
    by (auto simp: sync st MSG_END_def MSG_WTF_def MSG_BEGIN_def split: sum.splits)
  from process_end_Inr [OF rb zx pe] show ?thesis
    using pe s' by auto
qed

theorem handle_buff_END_split_witness:
  "handle_buff ((CapImgN_init 1 1 2 1)\<lparr>state := MSG_BEGIN, rawbuff := Some [1, 2, 3, 4, 9, 9]\<rparr>)
     [0x04, 0x80, 0x03, 0x00, 0x07, 0x00] =
   Inr ((CapImgN_init 1 1 2 1)\<lparr>state := MSG_END, rawbuff := None,
          completions := [(7, [1, 2], 0x0403)]\<rparr>) \<and>
   process_end ((CapImgN_init 1 1 2 1)\<lparr>state := MSG_BEGIN, rawbuff := Some [1, 2, 3, 4, 9, 9]\<rparr>)
     [0x04, 0x80, 0x03, 0x00, 0x07, 0x00] =
   Inr ((CapImgN_init 1 1 2 1)\<lparr>state := MSG_BEGIN, rawbuff := Some [9, 9],
          completions := [(7, [1, 2], 0x0403)]\<rparr>)"
proof -
  let ?s = "(CapImgN_init 1 1 2 1)\<lparr>state := MSG_BEGIN, rawbuff := Some [1, 2, 3, 4, 9, 9]\<rparr>"
  let ?b = "[0x04, 0x80, 0x03, 0x00, 0x07, 0x00] :: bytes"
  have pe: "process_end ?s ?b = Inr ((CapImgN_init 1 1 2 1)\<lparr>state := MSG_BEGIN,
      rawbuff := Some [9, 9], completions := [(7, [1, 2], 0x0403)]\<rparr>)"
    by (simp add: process_end_def pyslice_def struct_unpack_H_le struct_unpack_HH_le
        unpack16_le_eq CapImgN_init_def MSG_END_def MSG_END_SZ_def STATUS_OK_def STATUS_NOK_def)
  have hb: "handle_buff ?s ?b = Inr ((CapImgN_init 1 1 2 1)\<lparr>state := MSG_END, rawbuff := None,
          completions := [(7, [1, 2], 0x0403)]\<rparr>)"
    by (simp add: handle_buff_def is_sync_word process_end_def pyslice_def struct_unpack_H_le
        struct_unpack_HH_le unpack16_le_eq CapImgN_init_def MSG_END_def MSG_BEGIN_def
        MSG_WTF_def MSG_END_SZ_def STATUS_OK_def STATUS_NOK_def)
  have mk: "unpack16_le (pyslice ?b 0 2) = Inr MSG_END"
    by (simp add: unpack16_le_eq pyslice_def MSG_END_def)
  have "state ?s = MSG_BEGIN" "rawbuff ?s = Some [1, 2, 3, 4, 9, 9]"
    "imgx_sz ?s = imgsz ?s + 2"
    by (simp_all add: CapImgN_init_def)
  from handle_buff_END_split [OF this mk hb] show ?thesis
    using pe hb by simp
qed

text \<open>Against C3 as stated: two bytes beyond image and footer are gone after the END.\<close>

theorem handle_buff_END_leftover_counterexample:
  "handle_buff ((CapImgN_init 1 1 2 1)\<lparr>state := MSG_BEGIN, rawbuff := Some [1, 2, 3, 4, 9, 9]\<rparr>)
     [0x04, 0x80, 0x03, 0x00, 0x07, 0x00] =
   Inr ((CapImgN_init 1 1 2 1)\<lparr>state := MSG_END, rawbuff := None,
          completions := [(7, [1, 2], 0x0403)]\<rparr>)"
  by (simp add: handle_buff_def is_sync_word process_end_def pyslice_def struct_unpack_H_le
      struct_unpack_HH_le unpack16_le_eq CapImgN_init_def MSG_END_def MSG_BEGIN_def
      MSG_WTF_def MSG_END_SZ_def STATUS_OK_def STATUS_NOK_def)

text \<open>
  C5, as amended. Inside a frame whose accumulated bytes hold at least image plus
  footer, a buffer of at least six bytes that starts with the END marker is handled by
  its status: 3 appends (counter, raw image, footer value) to the completions; 7
  appends nothing and raises nothing; any other status raises an AssertionError with
  the completions unchanged.
\<close>

theorem handle_buff_END_status:
  assumes st: "state self = MSG_BEGIN"
      and rb: "rawbuff self = Some rb"
      and zx: "imgx_sz self = imgsz self + 2"
      and len: "imgx_sz self \<le> length rb"
      and eb: "buff = e0 # e1 # s0 # s1 # c0 # c1 # rest"
      and op: "uint e0 + 256 * uint e1 = MSG_END"
      and status: "status = uint s0 + 256 * uint s1"
      and counter: "counter = uint c0 + 256 * uint c1"
      and footer: "footer = uint (rb ! imgsz self) + 256 * uint (rb ! (imgsz self + 1))"
  shows "handle_buff self buff =
     (if status = STATUS_NOK then Inr (self\<lparr>rawbuff := None, state := MSG_END\<rparr>)
      else if status = STATUS_OK
      then Inr (self\<lparr>rawbuff := None, state := MSG_END,
             completions := completions self @ [(counter, take (imgsz self) rb, footer)]\<rparr>)
      else Inl (AssertionError, self\<lparr>rawbuff := Some (drop (imgx_sz self) rb)\<rparr>))"
proof -
  have sync: "is_sync buff = Inr MSG_END"
    using eb op by (simp add: is_sync_word MSG_END_def)
  show ?thesis
    unfolding handle_buff_def
    by (simp add: sync st process_end_eq [OF rb zx len eb op] status counter footer)
       (simp add: MSG_END_def MSG_WTF_def MSG_BEGIN_def)
qed

theorem handle_buff_END_status_witness:
  "handle_buff ((CapImgN_init 1 1 2 1)\<lparr>state := MSG_BEGIN, rawbuff := Some [1, 2, 3, 4]\<rparr>)
     [0x04, 0x80, 0x07, 0x00, 0x09, 0x00] =
   Inr ((CapImgN_init 1 1 2 1)\<lparr>state := MSG_END, rawbuff := None\<rparr>) \<and>
   handle_buff ((CapImgN_init 1 1 2 1)\<lparr>state := MSG_BEGIN, rawbuff := Some [1, 2, 3, 4]\<rparr>)
     [0x04, 0x80, 0x03, 0x00, 0x09, 0x00] =
   Inr ((CapImgN_init 1 1 2 1)\<lparr>state := MSG_END, rawbuff := None,
          completions := [(9, [1, 2], 0x0403)]\<rparr>) \<and>
   handle_buff ((CapImgN_init 1 1 2 1)\<lparr>state := MSG_BEGIN, rawbuff := Some [1, 2, 3, 4]\<rparr>)
     [0x04, 0x80, 0x05, 0x00, 0x09, 0x00] =
   Inl (AssertionError, (CapImgN_init 1 1 2 1)\<lparr>state := MSG_BEGIN, rawbuff := Some []\<rparr>)"
  using
    handle_buff_END_status [of "(CapImgN_init 1 1 2 1)\<lparr>state := MSG_BEGIN, rawbuff := Some [1, 2, 3, 4]\<rparr>"
      "[1, 2, 3, 4]" _ "0x04" "0x80" "0x07" "0x00" "0x09" "0x00" "[]" 7 9 "0x0403"]
    handle_buff_END_status [of "(CapImgN_init 1 1 2 1)\<lparr>state := MSG_BEGIN, rawbuff := Some [1, 2, 3, 4]\<rparr>"
      "[1, 2, 3, 4]" _ "0x04" "0x80" "0x03" "0x00" "0x09" "0x00" "[]" 3 9 "0x0403"]
    handle_buff_END_status [of "(CapImgN_init 1 1 2 1)\<lparr>state := MSG_BEGIN, rawbuff := Some [1, 2, 3, 4]\<rparr>"
      "[1, 2, 3, 4]" _ "0x04" "0x80" "0x05" "0x00" "0x09" "0x00" "[]" 5 9 "0x0403"]
  by (simp add: CapImgN_init_def MSG_END_def MSG_BEGIN_def STATUS_OK_def STATUS_NOK_def)

text \<open>
  Against C5 as stated: with fewer accumulated bytes than image plus footer, status 7
  raises \<^verbatim>\<open>struct.error\<close>, for the footer is read before the status.
\<close>

theorem handle_buff_NOK_short_counterexample:
  "handle_buff ((CapImgN_init 1 1 2 1)\<lparr>state := MSG_BEGIN, rawbuff := Some []\<rparr>)
     [0x04, 0x80, 0x07, 0x00, 0x09, 0x00] =
   Inl (StructError, (CapImgN_init 1 1 2 1)\<lparr>state := MSG_BEGIN, rawbuff := Some []\<rparr>)"
  by (simp add: handle_buff_def is_sync_word process_end_def pyslice_def struct_unpack_H_le
      CapImgN_init_def MSG_END_def MSG_BEGIN_def MSG_WTF_def)

section \<open>Markers: claims C7 and C9\<close>

text \<open>
  C7. A buffer whose leading word is the WTF marker, in any state: \<^verbatim>\<open>handle_buff\<close>
  drops the accumulated bytes, sets the state to wait for BEGIN and raises nothing; the
  callback raises nothing either and the completions stay as they were.
\<close>

theorem handle_buff_WTF:
  assumes "unpack16_le (pyslice buff 0 2) = Inr MSG_WTF"
  shows "handle_buff self buff = Inr (self\<lparr>state := MSG_END, rawbuff := None\<rparr>) \<and>
     (\<exists>self'. async_cb self buff = Inr self' \<and> completions self' = completions self)"
proof -
  have sync: "is_sync buff = Inr MSG_WTF"
    using assms by (rule is_sync_marker) (simp add: MSG_WTF_def)
  have hb: "handle_buff self buff = Inr (self\<lparr>state := MSG_END, rawbuff := None\<rparr>)"
    by (simp add: handle_buff_def sync)
  show ?thesis
    by (simp add: hb async_cb_def submit_def)
qed

theorem handle_buff_WTF_witness:
  "unpack16_le (pyslice [0x05, 0x80, 0x00] 0 2) = Inr MSG_WTF \<and>
   handle_buff ((CapImgN_init 1 1 2 1)\<lparr>state := MSG_BEGIN, rawbuff := Some [1, 2]\<rparr>)
     [0x05, 0x80, 0x00] =
   Inr ((CapImgN_init 1 1 2 1)\<lparr>state := MSG_END, rawbuff := None\<rparr>)"
proof -
  have mk: "unpack16_le (pyslice [0x05, 0x80, 0x00] 0 2) = Inr MSG_WTF"
    by (simp add: unpack16_le_eq pyslice_def MSG_WTF_def)
  from handle_buff_WTF [OF mk, of "(CapImgN_init 1 1 2 1)\<lparr>state := MSG_BEGIN, rawbuff := Some [1, 2]\<rparr>"]
  show ?thesis using mk by (simp add: CapImgN_init_def)
qed

text \<open>
  C9. While waiting for BEGIN, a buffer whose leading word is a marker other than BEGIN,
  END and WTF (the ABORTED marker is one) fails the assertion of \<^verbatim>\<open>handle_buff\<close>; the
  callback clears \<open>running\<close> and raises the error again, which ends the event handling.
\<close>

theorem handle_buff_stray_marker:
  assumes st: "state self = MSG_END"
      and mk: "unpack16_le (pyslice buff 0 2) = Inr sync"
      and ge: "sync \<ge> 0x4000"
      and ne: "sync \<noteq> MSG_BEGIN" "sync \<noteq> MSG_END" "sync \<noteq> MSG_WTF"
      and run: "running self"
      and sub: "0 < submitted self"
  shows "handle_buff self buff = Inl (AssertionError, self) \<and>
     async_cb self buff = Inl (AssertionError, self\<lparr>running := False\<rparr>) \<and>
     handleEvents self (buff # rest) =
       Inl (AssertionError, self\<lparr>submitted := submitted self - 1, running := False\<rparr>)"
proof -
  have sync: "is_sync buff = Inr sync"
    using mk ge by (rule is_sync_marker)
  have nz: "sync \<noteq> 0" using ge by simp
  have hb: "\<And>s. state s = MSG_END \<Longrightarrow> handle_buff s buff = Inl (AssertionError, s)"
    by (simp add: handle_buff_def sync ne nz)
  show ?thesis
    using st run sub by (simp add: hb async_cb_def deliver_def)
qed

theorem handle_buff_stray_marker_witness:
  "unpack16_le (pyslice [0x01, 0x80] 0 2) = Inr MSG_ABORTED \<and>
   handle_buff ((CapImgN_init 1 1 2 1)\<lparr>submitted := 1\<rparr>) [0x01, 0x80] =
     Inl (AssertionError, (CapImgN_init 1 1 2 1)\<lparr>submitted := 1\<rparr>) \<and>
   async_cb ((CapImgN_init 1 1 2 1)\<lparr>submitted := 1\<rparr>) [0x01, 0x80] =
     Inl (AssertionError, (CapImgN_init 1 1 2 1)\<lparr>submitted := 1, running := False\<rparr>)"
proof -
  have mk: "unpack16_le (pyslice [0x01, 0x80] 0 2) = Inr MSG_ABORTED"
    by (simp add: unpack16_le_eq pyslice_def MSG_ABORTED_def)
  have "state ((CapImgN_init 1 1 2 1)\<lparr>submitted := 1\<rparr>) = MSG_END"
    by (simp add: CapImgN_init_def)
  from handle_buff_stray_marker [OF this mk, of "[]"]
  show ?thesis using mk
    by (simp add: CapImgN_init_def MSG_ABORTED_def MSG_BEGIN_def MSG_END_def MSG_WTF_def)
qed

section \<open>Invariants of the capture loop\<close>

text \<open>No step of the frame handling raises the timeout; that is the loop's alone.\<close>

lemma unpack_items_err: "unpack_items big cs buff = Inl e \<Longrightarrow> e = StructError"
  by (induction cs arbitrary: buff e)
     (auto split: if_splits option.splits sum.splits)

lemma struct_unpack_err: "struct_unpack fmt buff = Inl e \<Longrightarrow> e = StructError"
  by (auto simp: struct_unpack_def dest: unpack_items_err split: list.splits if_splits)

lemma unpack16_le_err: "unpack16_le buff = Inl e \<Longrightarrow> e \<noteq> TimeoutException"
  by (auto simp: unpack16_le_def dest: struct_unpack_err split: sum.splits list.splits)

lemma is_sync_err: "is_sync buff = Inl e \<Longrightarrow> e \<noteq> TimeoutException"
  by (auto simp: is_sync_def dest: unpack16_le_err split: if_splits sum.splits)

lemma process_end_frame:
  assumes "process_end s b = Inr s'"
  shows "running s' = running s \<and> urb_remain s' = urb_remain s \<and>
     submitted s' = submitted s \<and> n s' = n s \<and> urb_max s' = urb_max s \<and>
     state s' = state s \<and>
     (\<exists>ext. completions s' = completions s @ ext)"
  using assms unfolding process_end_def
  by (auto simp: Let_def split: option.splits sum.splits list.splits if_splits)

lemma process_end_frame_err:
  assumes "process_end s b = Inl (e, s')"
  shows "e \<noteq> TimeoutException \<and> running s' = running s \<and> urb_remain s' = urb_remain s \<and>
     submitted s' = submitted s \<and> n s' = n s \<and> urb_max s' = urb_max s \<and>
     completions s' = completions s"
  using assms unfolding process_end_def
  by (auto simp: Let_def dest: struct_unpack_err unpack16_le_err
      split: option.splits sum.splits list.splits if_splits)

lemma handle_buff_frame:
  assumes "handle_buff s b = Inr s'"
  shows "running s' = running s \<and> urb_remain s' = urb_remain s \<and>
     submitted s' = submitted s \<and> n s' = n s \<and> urb_max s' = urb_max s \<and>
     (\<exists>ext. completions s' = completions s @ ext)"
  using assms unfolding handle_buff_def
  by (auto simp: Let_def dest!: process_end_frame
      split: option.splits sum.splits if_splits)

lemma handle_buff_frame_err:
  assumes "handle_buff s b = Inl (e, s')"
  shows "e \<noteq> TimeoutException \<and> running s' = running s \<and> urb_remain s' = urb_remain s \<and>
     submitted s' = submitted s \<and> n s' = n s \<and> urb_max s' = urb_max s \<and>
     completions s' = completions s"
  using assms unfolding handle_buff_def
  by (auto simp: Let_def dest!: process_end_frame_err is_sync_err
      split: option.splits sum.splits if_splits)

text \<open>Transfers, callbacks and one call of the event handler.\<close>

lemma alloc_urb_loop_eq:
  "alloc_urb_loop k s =
     s\<lparr>urb_remain := urb_remain s + int k, submitted := submitted s + k\<rparr>"
  by (induction k arbitrary: s) (simp_all add: submit_def)

lemma alloc_urb_eq:
  "alloc_urb s cnt =
     s\<lparr>urb_remain := urb_remain s + int (nat cnt), submitted := submitted s + nat cnt\<rparr>"
  by (simp add: alloc_urb_def alloc_urb_loop_eq)

lemma async_cb_Inr:
  assumes "async_cb s b = Inr s'"
  shows "n s' = n s \<and> urb_max s' = urb_max s \<and> running s' = running s \<and>
     (if running s
      then urb_remain s' = urb_remain s \<and> submitted s' \<le> submitted s + 1 \<and>
           (\<exists>ext. completions s' = completions s @ ext)
      else urb_remain s' = urb_remain s - 1 \<and> submitted s' = submitted s \<and>
           completions s' = completions s)"
  using assms unfolding async_cb_def
  by (auto simp: submit_def dest!: handle_buff_frame split: sum.splits if_splits prod.splits)

lemma async_cb_Inl:
  assumes "async_cb s b = Inl (e, s')"
  shows "e \<noteq> TimeoutException \<and> urb_max s' = urb_max s \<and> urb_remain s' = urb_remain s \<and>
     submitted s' = submitted s \<and> \<not> running s'"
  using assms unfolding async_cb_def
  by (auto simp: submit_def dest!: handle_buff_frame_err split: sum.splits if_splits prod.splits)

lemma deliver_Inr:
  assumes "deliver s b = Inr s'" and "bounds_inv s" and "running_inv s"
  shows "bounds_inv s' \<and> running_inv s' \<and> n s' = n s \<and> urb_max s' = urb_max s \<and>
     (\<exists>ext. completions s' = completions s @ ext)"
proof (cases "submitted s = 0")
  case True
  then show ?thesis using assms by (simp add: deliver_def)
next
  case False
  then have cb: "async_cb (s\<lparr>submitted := submitted s - 1\<rparr>) b = Inr s'"
    using assms(1) by (simp add: deliver_def)
  from async_cb_Inr [OF cb] False assms(2,3) show ?thesis
    by (cases "running s") (auto simp: bounds_inv_def running_inv_def)
qed

lemma deliver_Inl:
  assumes "deliver s b = Inl (e, s')" and "bounds_inv s"
  shows "bounds_inv s' \<and> e \<noteq> TimeoutException \<and> \<not> running s' \<and> urb_max s' = urb_max s"
proof (cases "submitted s = 0")
  case True
  then show ?thesis using assms by (simp add: deliver_def)
next
  case False
  then have cb: "async_cb (s\<lparr>submitted := submitted s - 1\<rparr>) b = Inl (e, s')"
    using assms(1) by (simp add: deliver_def)
  from async_cb_Inl [OF cb] False assms(2) show ?thesis
    by (auto simp: bounds_inv_def)
qed

lemma handleEvents_Inr:
  assumes "handleEvents s bufs = Inr s'" and "bounds_inv s" and "running_inv s"
  shows "bounds_inv s' \<and> running_inv s' \<and> n s' = n s \<and> urb_max s' = urb_max s \<and>
     (\<exists>ext. completions s' = completions s @ ext)"
  using assms
proof (induction bufs arbitrary: s)
  case Nil
  then show ?case by simp
next
  case (Cons b bufs)
  from Cons.prems(1) obtain s1 where d: "deliver s b = Inr s1"
    and h: "handleEvents s1 bufs = Inr s'"
    by (auto split: sum.splits)
  from deliver_Inr [OF d Cons.prems(2,3)] Cons.IH [OF h] show ?case
    by auto
qed

lemma handleEvents_Inl:
  assumes "handleEvents s bufs = Inl (e, s')" and "bounds_inv s" and "running_inv s"
  shows "bounds_inv s' \<and> e \<noteq> TimeoutException \<and> \<not> running s' \<and> urb_max s' = urb_max s"
  using assms
proof (induction bufs arbitrary: s)
  case Nil
  then show ?case by simp
next
  case (Cons b bufs)
  show ?case
  proof (cases "deliver s b")
    case (Inl err)
    then show ?thesis using Cons.prems deliver_Inl [of s b e s'] by simp
  next
    case (Inr s1)
    then have h: "handleEvents s1 bufs = Inl (e, s')" using Cons.prems(1) by simp
    from deliver_Inr [OF Inr Cons.prems(2,3)] Cons.IH [OF h] show ?thesis by simp
  qed
qed

text \<open>What a turn of the loop does before it handles events.\<close>

lemma loop_head_inv:
  assumes "bounds_inv s" and "running_inv s" and "urb_remain s \<noteq> 0"
  defines "s1 \<equiv> s\<lparr>running := running s \<and> int (length (completions s)) < n s\<rparr>"
  defines "s2 \<equiv> (if running s1 \<and> state s1 = MSG_BEGIN
                  then alloc_urb s1 (urb_max s1 - urb_remain s1) else s1)"
  shows "bounds_inv s1 \<and> bounds_inv s2 \<and> running_inv s2 \<and> n s2 = n s \<and>
     urb_max s2 = urb_max s \<and> completions s2 = completions s \<and> 1 \<le> urb_remain s1"
  using assms(1-3) unfolding s1_def s2_def
  by (auto simp: bounds_inv_def running_inv_def alloc_urb_eq split: if_splits)

lemma run_loop_inv:
  assumes "bounds_inv s" and "running_inv s"
  shows "case run_loop tmo s script of
     Returned cs s' \<Rightarrow> cs = completions s' \<and> urb_remain s' = 0 \<and> submitted s' = 0 \<and>
        n s \<le> int (length cs) \<and> n s' = n s \<and> urb_max s' = urb_max s
   | Raised e s' \<Rightarrow> bounds_inv s' \<and> urb_max s' = urb_max s \<and>
        (if e = TimeoutException then 1 \<le> urb_remain s' else \<not> running s')
   | Pending s' \<Rightarrow> bounds_inv s' \<and> running_inv s' \<and> urb_remain s' \<noteq> 0 \<and>
        n s' = n s \<and> urb_max s' = urb_max s"
  using assms
proof (induction script arbitrary: s)
  case Nil
  then show ?case
    by (auto simp: bounds_inv_def running_inv_def split: if_splits)
next
  case (Cons turn script)
  obtain t bufs where turn: "turn = (t, bufs)" by (cases turn)
  show ?case
  proof (cases "urb_remain s = 0")
    case True
    then show ?thesis using Cons.prems turn
      by (auto simp: bounds_inv_def running_inv_def split: if_splits)
  next
    case False
    define s1 where "s1 = s\<lparr>running := running s \<and> int (length (completions s)) < n s\<rparr>"
    define s2 where "s2 = (if running s1 \<and> state s1 = MSG_BEGIN
                  then alloc_urb s1 (urb_max s1 - urb_remain s1) else s1)"
    from loop_head_inv [OF Cons.prems False]
    have head: "bounds_inv s1" "bounds_inv s2" "running_inv s2" "n s2 = n s"
      "urb_max s2 = urb_max s" "completions s2 = completions s" "1 \<le> urb_remain s1"
      unfolding s1_def s2_def by simp_all
    have um1: "urb_max s1 = urb_max s" by (simp add: s1_def)
    have step: "run_loop tmo s (turn # script) =
        (if tmo \<le> int (t div 1000) * 1000 then Raised TimeoutException s1
         else case handleEvents s2 bufs of
                Inl (e, s3) \<Rightarrow> Raised e s3
              | Inr s3 \<Rightarrow> run_loop tmo s3 script)"
      unfolding s1_def s2_def turn using False by (simp add: Let_def)
    show ?thesis
    proof (cases "tmo \<le> int (t div 1000) * 1000")
      case True
      then show ?thesis using step head um1 by simp
    next
      case late: False
      show ?thesis
      proof (cases "handleEvents s2 bufs")
        case (Inl err)
        obtain e s3 where err: "err = (e, s3)" by (cases err)
        have r: "run_loop tmo s (turn # script) = Raised e s3"
          using step late Inl err by simp
        from handleEvents_Inl [of s2 bufs e s3] Inl err head
        have "bounds_inv s3 \<and> e \<noteq> TimeoutException \<and> \<not> running s3 \<and> urb_max s3 = urb_max s2"
          by simp
        then show ?thesis using r head by simp
      next
        case (Inr s3)
        have r: "run_loop tmo s (turn # script) = run_loop tmo s3 script"
          using step late Inr by simp
        from handleEvents_Inr [OF Inr head(2,3)]
        have s3: "bounds_inv s3" "running_inv s3" "n s3 = n s2" "urb_max s3 = urb_max s2"
          by simp_all
        from Cons.IH [OF s3(1,2)] show ?thesis
          using r s3 head by (auto split: outcome.splits)
      qed
    qed
  qed
qed

text \<open>The session the loop starts from, and the loop over a script in two parts.\<close>

lemma start_inv:
  assumes "s0 = alloc_urb ((CapImgN_init w h d cnt)\<lparr>urb_remain := 0, submitted := 0\<rparr>) 1"
  shows "bounds_inv s0 \<and> running_inv s0 \<and> urb_max s0 = 31 \<and> n s0 = cnt"
  unfolding assms
  by (simp add: alloc_urb_eq CapImgN_init_def bounds_inv_def running_inv_def)

lemma run_loop_append:
  "run_loop tmo s (xs @ ys) =
     (case run_loop tmo s xs of Pending s' \<Rightarrow> run_loop tmo s' ys | r \<Rightarrow> r)"
proof (induction xs arbitrary: s)
  case Nil
  then show ?case by (cases ys) auto
next
  case (Cons turn xs)
  obtain t bufs where turn: "turn = (t, bufs)" by (cases turn)
  show ?case
    unfolding turn using Cons.IH
    by (simp add: Let_def split: sum.splits prod.splits)
qed

lemma stop_Pending: "stop r = Pending s \<longleftrightarrow> r = Pending s"
  by (cases r) (simp_all add: stop_def)

lemma stop_Returned: "stop r = Returned cs s \<Longrightarrow> \<exists>s'. r = Returned cs s' \<and> s = s'\<lparr>running := False\<rparr>"
  by (cases r) (simp_all add: stop_def)

lemma cap_imgn_timeout_state:
  assumes "cap_imgn w h d cnt tmo script = Raised TimeoutException s"
  shows "1 \<le> urb_remain s \<and> \<not> running s"
proof -
  define s0 where "s0 = alloc_urb ((CapImgN_init w h d cnt)\<lparr>urb_remain := 0, submitted := 0\<rparr>) 1"
  have inv: "bounds_inv s0" "running_inv s0"
    using start_inv [OF s0_def] by simp_all
  from assms obtain s' where r: "run_loop tmo s0 script = Raised TimeoutException s'"
    and s: "s = s'\<lparr>running := False\<rparr>"
    unfolding cap_imgn_def run_def s0_def
    by (cases "run_loop tmo (alloc_urb ((CapImgN_init w h d cnt)\<lparr>urb_remain := 0, submitted := 0\<rparr>) 1) script")
       (auto simp: stop_def)
  from run_loop_inv [OF inv, of tmo script] r s show ?thesis by simp
qed

lemma cap_imgn_bounds:
  "bounds_inv (session_of (cap_imgn w h d cnt tmo script)) \<and>
   urb_max (session_of (cap_imgn w h d cnt tmo script)) = 31"
proof -
  define s0 where "s0 = alloc_urb ((CapImgN_init w h d cnt)\<lparr>urb_remain := 0, submitted := 0\<rparr>) 1"
  have inv: "bounds_inv s0" "running_inv s0" "urb_max s0 = 31"
    using start_inv [OF s0_def] by simp_all
  have "bounds_inv (session_of (run_loop tmo s0 script)) \<and>
      urb_max (session_of (run_loop tmo s0 script)) = 31"
    using run_loop_inv [OF inv(1,2), of tmo script] inv(3)
    by (cases "run_loop tmo s0 script") (auto simp: session_of_def bounds_inv_def)
  moreover have "\<And>r. bounds_inv (session_of (stop r)) = bounds_inv (session_of r) \<and>
      urb_max (session_of (stop r)) = urb_max (session_of r)"
    subgoal for r by (cases r) (simp_all add: stop_def session_of_def bounds_inv_def)
    done
  ultimately show ?thesis
    unfolding cap_imgn_def run_def s0_def by simp
qed

text \<open>
  Runs on concrete streams, for a sensor of one pixel. A frame is a BEGIN marker, four
  bytes of data (the pixel and the footer) and an END message with status 3.
\<close>

lemma one_frame_returns:
  "cap_imgn 1 1 2 1 2500
     [(0, [[0x02, 0x80], [0, 0, 0, 0], [0x04, 0x80, 3, 0, 7, 0]]), (200, [[]])] =
   Returned [(7, [0, 0], 0)]
     ((CapImgN_init 1 1 2 1)\<lparr>completions := [(7, [0, 0], 0)], packets := 1,
        running := False\<rparr>)"
  by code_simp

lemma idle_turn_pending:
  "cap_imgn 1 1 2 1 2500 [(0, [])] =
   Pending ((CapImgN_init 1 1 2 1)\<lparr>urb_remain := 1, submitted := 1\<rparr>)"
  by code_simp

lemma pipeline_after_end:
  "cap_imgn 1 1 2 2 2500
     [(0, [[0x02, 0x80]]), (100, [[0, 0, 0, 0], [0x04, 0x80, 3, 0, 7, 0]])] =
   Pending
     ((CapImgN_init 1 1 2 2)\<lparr>state := MSG_END, completions := [(7, [0, 0], 0)],
        packets := 1, urb_remain := 31, submitted := 30\<rparr>)"
  by code_simp

lemma resubmit_when_one:
  "async_cb ((CapImgN_init 1 1 2 1)\<lparr>urb_remain := 1\<rparr>) [] =
     Inr ((CapImgN_init 1 1 2 1)\<lparr>urb_remain := 1, submitted := 1\<rparr>)"
  by (simp add: async_cb_def handle_buff_def is_sync_def submit_def CapImgN_init_def)

section \<open>Returning from a capture: claim C6\<close>

text \<open>
  While \<open>running\<close> holds, the callback resubmits its transfer or leaves it; it counts
  a transfer down only when \<open>running\<close> is cleared. In state END with more than one
  read counted it does neither, so the count stays above the transfers in flight, and
  nothing brings the two together again.
\<close>

lemma deliver_slip:
  assumes "deliver s b = Inr s'" and "int (submitted s) < urb_remain s"
  shows "int (submitted s') < urb_remain s'"
proof (cases "submitted s = 0")
  case True
  then show ?thesis using assms by (simp add: deliver_def)
next
  case False
  then have cb: "async_cb (s\<lparr>submitted := submitted s - 1\<rparr>) b = Inr s'"
    using assms(1) by (simp add: deliver_def)
  from async_cb_Inr [OF cb] False assms(2) show ?thesis
    by (cases "running s") auto
qed

lemma handleEvents_slip:
  assumes "handleEvents s bufs = Inr s'" and "int (submitted s) < urb_remain s"
  shows "int (submitted s') < urb_remain s'"
  using assms
proof (induction bufs arbitrary: s)
  case Nil
  then show ?case by simp
next
  case (Cons b bufs)
  from Cons.prems(1) obtain s1 where d: "deliver s b = Inr s1"
    and h: "handleEvents s1 bufs = Inr s'"
    by (auto split: sum.splits)
  from Cons.IH [OF h deliver_slip [OF d Cons.prems(2)]] show ?case .
qed

lemma run_loop_slip:
  assumes "int (submitted s) < urb_remain s"
  shows "run_loop tmo s script \<noteq> Returned cs s'"
  using assms
proof (induction script arbitrary: s)
  case Nil
  then show ?case by simp
next
  case (Cons turn script)
  obtain t bufs where turn: "turn = (t, bufs)" by (cases turn)
  define s1 where "s1 = s\<lparr>running := running s \<and> int (length (completions s)) < n s\<rparr>"
  define s2 where "s2 = (if running s1 \<and> state s1 = MSG_BEGIN
      then alloc_urb s1 (urb_max s1 - urb_remain s1) else s1)"
  have slip2: "int (submitted s2) < urb_remain s2"
    using Cons.prems unfolding s2_def s1_def by (simp add: alloc_urb_eq)
  have nz: "urb_remain s \<noteq> 0" using Cons.prems by simp
  show ?case
  proof (cases "tmo \<le> int (t div 1000) * 1000")
    case True
    then show ?thesis unfolding turn using nz by (simp add: Let_def)
  next
    case False
    have step: "run_loop tmo s ((t, bufs) # script) =
        (case handleEvents s2 bufs of Inl (e, s3) \<Rightarrow> Raised e s3
         | Inr s3 \<Rightarrow> run_loop tmo s3 script)"
      unfolding s1_def s2_def using False nz by (simp add: Let_def)
    show ?thesis
    proof (cases "handleEvents s2 bufs")
      case (Inl err)
      then show ?thesis unfolding turn step by (simp split: prod.splits)
    next
      case (Inr s3)
      from Cons.IH [OF handleEvents_slip [OF Inr slip2]] Inr
      show ?thesis unfolding turn step by simp
    qed
  qed
qed

lemma pipeline_filled:
  "cap_imgn 1 1 2 1 2500
     [(0, [[0x02, 0x80]]), (100, [[0, 0, 0, 0], [0x04, 0x80, 3, 0, 7, 0]])] =
   Pending
     ((CapImgN_init 1 1 2 1)\<lparr>state := MSG_END, completions := [(7, [0, 0], 0)],
        packets := 1, urb_remain := 31, submitted := 30\<rparr>)"
  by code_simp

text \<open>
  C6 fails on the code. A capture of one frame whose BEGIN is seen at the head of a
  turn of the loop fills the pipeline. When its END has been handled the frame is
  accepted, well before the deadline, the session waits with 31 reads counted and 30
  in flight, and whatever the stream and the clock do from there, the call does not
  return: the count of outstanding reads never reaches zero.
\<close>

theorem pipelined_capture_never_returns:
  "cap_imgn 1 1 2 1 2500
     [(0, [[0x02, 0x80]]), (100, [[0, 0, 0, 0], [0x04, 0x80, 3, 0, 7, 0]])] =
   Pending
     ((CapImgN_init 1 1 2 1)\<lparr>state := MSG_END, completions := [(7, [0, 0], 0)],
        packets := 1, urb_remain := 31, submitted := 30\<rparr>) \<and>
   cap_imgn 1 1 2 1 2500
     ([(0, [[0x02, 0x80]]), (100, [[0, 0, 0, 0], [0x04, 0x80, 3, 0, 7, 0]])] @ rest)
     \<noteq> Returned cs s"
proof -
  let ?pre = "[(0, [[0x02, 0x80]]), (100, [[0, 0, 0, 0], [0x04, 0x80, 3, 0, 7, 0]])]
      :: (nat \<times> bytes list) list"
  let ?s0 = "alloc_urb ((CapImgN_init 1 1 2 1)\<lparr>urb_remain := 0, submitted := 0\<rparr>) 1"
  let ?sP = "(CapImgN_init 1 1 2 1)\<lparr>state := MSG_END, completions := [(7, [0, 0], 0)],
        packets := 1, urb_remain := 31, submitted := 30\<rparr>"
  have pre: "run_loop 2500 ?s0 ?pre = Pending ?sP"
    using pipeline_filled unfolding cap_imgn_def run_def by (simp only: stop_Pending)
  have slip: "int (submitted ?sP) < urb_remain ?sP" by simp
  have "run_loop 2500 ?s0 (?pre @ rest) = run_loop 2500 ?sP rest"
    by (simp only: run_loop_append pre outcome.case)
  then have "run_loop 2500 ?s0 (?pre @ rest) \<noteq> Returned cs s'" for s'
    using run_loop_slip [OF slip] by simp
  then have "stop (run_loop 2500 ?s0 (?pre @ rest)) \<noteq> Returned cs s"
    using stop_Returned by blast
  then show ?thesis using pipeline_filled unfolding cap_imgn_def run_def by simp
qed

theorem pipelined_capture_never_returns_witness:
  "cap_imgn 1 1 2 1 2500
     [(0, [[0x02, 0x80]]), (100, [[0, 0, 0, 0], [0x04, 0x80, 3, 0, 7, 0]]),
      (200, replicate 30 []), (3000, [])]
   \<noteq> Returned [(7, [0, 0], 0)]
        ((CapImgN_init 1 1 2 1)\<lparr>completions := [(7, [0, 0], 0)], packets := 1,
           running := False, urb_remain := 0\<rparr>)"
  using pipelined_capture_never_returns [of "[(200, replicate 30 []), (3000, [])]"
      "[(7, [0, 0], 0)]"
      "(CapImgN_init 1 1 2 1)\<lparr>completions := [(7, [0, 0], 0)], packets := 1,
           running := False, urb_remain := 0\<rparr>"]
  by simp

text \<open>The same capture with nothing more on the stream ends at the deadline.\<close>

lemma pipelined_capture_times_out:
  "cap_imgn 1 1 2 1 2500
     [(0, [[0x02, 0x80]]), (100, [[0, 0, 0, 0], [0x04, 0x80, 3, 0, 7, 0]]),
      (200, replicate 30 []), (3000, [])] =
   Raised TimeoutException
     ((CapImgN_init 1 1 2 1)\<lparr>completions := [(7, [0, 0], 0)], packets := 1,
        running := False, urb_remain := 1\<rparr>)"
  by code_simp

text \<open>
  What holds of a call that does return: it yields the completions of the session, at
  least \<open>cnt\<close> of them, and no read is counted or in flight.
\<close>

lemma cap_imgn_returns:
  assumes "cap_imgn w h d cnt tmo script = Returned cs s"
  shows "cnt \<le> int (length cs) \<and> cs = completions s \<and> urb_remain s = 0 \<and> submitted s = 0"
proof -
  define s0 where "s0 = alloc_urb ((CapImgN_init w h d cnt)\<lparr>urb_remain := 0, submitted := 0\<rparr>) 1"
  have inv: "bounds_inv s0" "running_inv s0" "n s0 = cnt"
    using start_inv [OF s0_def] by simp_all
  from assms obtain s' where r: "run_loop tmo s0 script = Returned cs s'"
    and s: "s = s'\<lparr>running := False\<rparr>"
    unfolding cap_imgn_def run_def s0_def by (auto dest!: stop_Returned)
  from run_loop_inv [OF inv(1,2), of tmo script] r inv(3) s show ?thesis by auto
qed

text \<open>
  The target is compared with the number of completions at the head of each turn of
  the loop only: two frames that complete within one call of the event handler are
  both yielded by a capture of one.
\<close>

lemma cap_imgn_two_for_one:
  "cap_imgn 1 1 2 1 2500
     [(0, [[0x02, 0x80], [0, 0, 0, 0], [0x04, 0x80, 3, 0, 7, 0],
           [0x02, 0x80], [1, 0, 0, 0], [0x04, 0x80, 3, 0, 8, 0]]),
      (200, [[]])] =
   Returned [(7, [0, 0], 0), (8, [1, 0], 0)]
     ((CapImgN_init 1 1 2 1)\<lparr>completions := [(7, [0, 0], 0), (8, [1, 0], 0)], packets := 1,
        running := False\<rparr>)"
  by code_simp

section \<open>The deadline: claim C4\<close>

text \<open>
  C4, as far as the code keeps it. The loop runs only while reads are counted, and the
  deadline is tested inside it: when a turn of the loop finds the truncated elapsed
  time at or past the timeout, the call raises at once. The count of outstanding
  reads is then at least one, the session is the one the turn found, and only
  \<open>running\<close> is cleared.
\<close>

theorem cap_imgn_deadline:
  assumes pre: "cap_imgn w h d cnt tmo pre = Pending s"
      and late: "tmo \<le> int (t div 1000) * 1000"
  shows "cap_imgn w h d cnt tmo (pre @ (t, bufs) # rest) =
           Raised TimeoutException (s\<lparr>running := False\<rparr>) \<and>
         1 \<le> urb_remain s"
proof -
  define s0 where "s0 = alloc_urb ((CapImgN_init w h d cnt)\<lparr>urb_remain := 0, submitted := 0\<rparr>) 1"
  have inv: "bounds_inv s0" "running_inv s0"
    using start_inv [OF s0_def] by simp_all
  from pre have r: "run_loop tmo s0 pre = Pending s"
    unfolding cap_imgn_def run_def s0_def by (simp add: stop_Pending)
  from run_loop_inv [OF inv, of tmo pre] r
  have s: "bounds_inv s" "urb_remain s \<noteq> 0" by simp_all
  then have pos: "1 \<le> urb_remain s" by (simp add: bounds_inv_def)
  have "run_loop tmo s0 (pre @ (t, bufs) # rest) =
      Raised TimeoutException (s\<lparr>running := running s \<and> int (length (completions s)) < n s\<rparr>)"
    using r s(2) late by (simp add: run_loop_append Let_def)
  then show ?thesis using pos
    unfolding cap_imgn_def run_def s0_def by (simp add: stop_def)
qed

theorem cap_imgn_deadline_witness:
  "cap_imgn 1 1 2 1 2500 [(0, [])] =
     Pending ((CapImgN_init 1 1 2 1)\<lparr>urb_remain := 1, submitted := 1\<rparr>) \<and>
   (2500 :: int) \<le> int (3000 div 1000) * 1000 \<and>
   cap_imgn 1 1 2 1 2500 [(0, []), (3000, [])] =
     Raised TimeoutException
       ((CapImgN_init 1 1 2 1)\<lparr>urb_remain := 1, submitted := 1, running := False\<rparr>) \<and>
   1 \<le> urb_remain ((CapImgN_init 1 1 2 1)\<lparr>urb_remain := 1, submitted := 1\<rparr>)"
proof -
  have late: "(2500 :: int) \<le> int (3000 div 1000) * 1000" by simp
  from cap_imgn_deadline [OF idle_turn_pending late, of "[]" "[]"]
  show ?thesis using idle_turn_pending by simp
qed

text \<open>
  Against C4 as stated: the first read is still counted, and in flight, when the
  timeout is raised.
\<close>

theorem timeout_not_drained_counterexample:
  "cap_imgn 1 1 2 1 2500 [(0, []), (3000, [])] =
   Raised TimeoutException
     ((CapImgN_init 1 1 2 1)\<lparr>running := False, urb_remain := 1, submitted := 1\<rparr>)"
  by code_simp

section \<open>The pipeline: claim C8\<close>

text \<open>
  C8, as far as the code keeps it. In every state of a capture session the transfers
  in flight are at most the reads counted, and those at most 31. In state END the
  callback submits a transfer only when one read is counted, and a turn of the loop
  submits none.
\<close>

theorem outstanding_reads_bound:
  "int (submitted (session_of (cap_imgn w h d cnt tmo script)))
     \<le> urb_remain (session_of (cap_imgn w h d cnt tmo script)) \<and>
   urb_remain (session_of (cap_imgn w h d cnt tmo script)) \<le> 31 \<and>
   (async_cb self buff = Inr self' \<and> state self' = MSG_END \<and>
      submitted self < submitted self' \<longrightarrow> urb_remain self' = 1) \<and>
   (state self = MSG_END \<and> urb_remain self \<noteq> 0 \<and> \<not> tmo \<le> int (t div 1000) * 1000 \<longrightarrow>
      submitted (session_of (run_loop tmo self [(t, [])])) = submitted self)"
proof -
  have a: "int (submitted (session_of (cap_imgn w h d cnt tmo script)))
     \<le> urb_remain (session_of (cap_imgn w h d cnt tmo script)) \<and>
   urb_remain (session_of (cap_imgn w h d cnt tmo script)) \<le> 31"
    using cap_imgn_bounds [of w h d cnt tmo script] by (simp add: bounds_inv_def)
  have b: "async_cb self buff = Inr self' \<and> state self' = MSG_END \<and>
      submitted self < submitted self' \<longrightarrow> urb_remain self' = 1"
    unfolding async_cb_def
    by (auto simp: submit_def MSG_END_def MSG_BEGIN_def dest!: handle_buff_frame
        split: sum.splits if_splits prod.splits)
  have c: "state self = MSG_END \<and> urb_remain self \<noteq> 0 \<and> \<not> tmo \<le> int (t div 1000) * 1000 \<longrightarrow>
      submitted (session_of (run_loop tmo self [(t, [])])) = submitted self"
    by (auto simp: Let_def session_of_def MSG_END_def MSG_BEGIN_def)
  from a b c show ?thesis by blast
qed

theorem outstanding_reads_bound_witness:
  "urb_remain (session_of (cap_imgn 1 1 2 2 2500
     [(0, [[0x02, 0x80]]), (100, [[0, 0, 0, 0], [0x04, 0x80, 3, 0, 7, 0]])])) \<le> 31 \<and>
   async_cb ((CapImgN_init 1 1 2 1)\<lparr>urb_remain := 1\<rparr>) [] =
     Inr ((CapImgN_init 1 1 2 1)\<lparr>urb_remain := 1, submitted := 1\<rparr>) \<and>
   urb_remain ((CapImgN_init 1 1 2 1)\<lparr>urb_remain := 1, submitted := 1\<rparr>) = 1 \<and>
   submitted (session_of (run_loop 2500 ((CapImgN_init 1 1 2 1)\<lparr>urb_remain := 1\<rparr>) [(0, [])]))
     = 0"
  using outstanding_reads_bound [of 1 1 2 2 2500
      "[(0, [[0x02, 0x80]]), (100, [[0, 0, 0, 0], [0x04, 0x80, 3, 0, 7, 0]])]"
      "(CapImgN_init 1 1 2 1)\<lparr>urb_remain := 1\<rparr>" "[]"
      "(CapImgN_init 1 1 2 1)\<lparr>urb_remain := 1, submitted := 1\<rparr>" 0]
    resubmit_when_one
  by (simp add: CapImgN_init_def)

text \<open>
  Against C8 as stated: when the END of a pipelined frame has been handled the
  session waits for a BEGIN with thirty transfers in flight.
\<close>

theorem waiting_begin_many_reads_counterexample:
  "state (session_of (cap_imgn 1 1 2 2 2500
     [(0, [[0x02, 0x80]]), (100, [[0, 0, 0, 0], [0x04, 0x80, 3, 0, 7, 0]])])) = MSG_END \<and>
   urb_remain (session_of (cap_imgn 1 1 2 2 2500
     [(0, [[0x02, 0x80]]), (100, [[0, 0, 0, 0], [0x04, 0x80, 3, 0, 7, 0]])])) = 31 \<and>
   submitted (session_of (cap_imgn 1 1 2 2 2500
     [(0, [[0x02, 0x80]]), (100, [[0, 0, 0, 0], [0x04, 0x80, 3, 0, 7, 0]])])) = 30"
  unfolding pipeline_after_end by (simp add: session_of_def CapImgN_init_def MSG_END_def)

section \<open>The session facade: claim C10\<close>

lemma decode_one_pixel:
  "decode [0x34, 0x12] 1 1 2 = Inr \<lparr>xsize = 1, ysize = 1, rows = [[0x1234]]\<rparr>"
  by (simp add: decode_def Image_new_def pyslice_def putpixel_def)

text \<open>
  C10, as far as the code keeps it. With the geometry set, the method calls the
  decoder on the buffer with the session's width and height and depth 2. When the
  decoder returns, the method returns \<open>None\<close> and the image is dropped; when the
  decoder raises, so does the method.
\<close>

theorem Hamamatsu_decode_result:
  assumes "ham_width self = Some w" and "ham_height self = Some h"
  shows "Hamamatsu_decode self buff =
     (case decode buff w h 2 of Inl e \<Rightarrow> Inl e | Inr img \<Rightarrow> Inr None)"
  using assms by (simp add: Hamamatsu_decode_def)

theorem Hamamatsu_decode_result_witness:
  "decode [0x34, 0x12] 1 1 2 = Inr \<lparr>xsize = 1, ysize = 1, rows = [[0x1234]]\<rparr> \<and>
   Hamamatsu_decode \<lparr>ham_width = Some 1, ham_height = Some 1\<rparr> [0x34, 0x12] = Inr None"
  using Hamamatsu_decode_result [of "\<lparr>ham_width = Some 1, ham_height = Some 1\<rparr>" 1 1 "[0x34, 0x12]"]
    decode_one_pixel
  by simp

text \<open>Against C10 as stated: an empty buffer does not give \<open>None\<close>.\<close>

theorem Hamamatsu_decode_raises_counterexample:
  "Hamamatsu_decode \<lparr>ham_width = Some 1032, ham_height = Some 1032\<rparr> [] = Inl AssertionError"
  by (simp add: Hamamatsu_decode_def decode_def)

end
